theory Spec2Isabelle
  imports Complex_Main "HOL-Library.Log_Nat"
begin

section \<open>Numbers\<close>

text \<open>
  A JavaScript Number is an IEEE 754 binary64 value. The finite ones are the rationals
  \<open>m * 2 powi j\<close> with \<open>\<bar>m\<bar> < 2 ^ 53\<close> and \<open>- 1074 \<le> j \<le> 971\<close>. Coordinates
  (\<open>clientX\<close>, \<open>clientY\<close>, of WebIDL type \<open>double\<close>, which has no \<open>NaN\<close> and no
  infinity) and clock readings (\<open>Date.now()\<close>, an integral number of milliseconds) are
  such Numbers.

  The listeners subtract Numbers, take \<open>Math.abs\<close> of the result and compare. The
  subtraction gives the exact difference rounded to the nearest binary64 value, ties to
  the even significand, and the infinity of its sign when that value reaches
  \<open>2 ^ 1024\<close> in magnitude.
  \<open>Math.abs\<close> and the comparisons are exact. The rationals \<open>2 ^ 1024\<close> and
  \<open>- (2 ^ 1024)\<close>, larger in magnitude than every finite Number, stand for the two
  infinities: they compare with the finite Numbers, with each other and with themselves
  the way the infinities do. No \<open>NaN\<close> arises, since both operands of every
  subtraction are coordinates or clock readings, or the initial 0.
\<close>

type_synonym number = rat

text \<open>The binary exponent of a non-zero rational: \<open>2 powi e \<le> \<bar>q\<bar> < 2 powi (e + 1)\<close>.\<close>

definition exponent :: "rat \<Rightarrow> int" where
  "exponent q =
     (let (a, b) = quotient_of \<bar>q\<bar>;
          k = bitlen a - bitlen b
      in if 2 powi k \<le> \<bar>q\<bar> then k else k - 1)"

text \<open>The nearest integer, the even one of the two at a tie.\<close>

definition round_even :: "rat \<Rightarrow> int" where
  "round_even r =
     (let f = \<lfloor>r\<rfloor>;
          d = r - of_int f
      in if d < 1 / 2 then f
         else if 1 / 2 < d then f + 1
         else if even f then f else f + 1)"

text \<open>
  Rounding to binary64: 53 significant bits, on the grid of the subnormals below
  \<open>2 powi (- 1022)\<close>.
\<close>

definition round_double :: "rat \<Rightarrow> number" where
  "round_double q =
     (if q = 0 then 0
      else let u = 2 powi (max (exponent q) (- 1022) - 52);
               r = of_int (round_even (q / u)) * u
           in if 2 ^ 1024 \<le> \<bar>r\<bar> then sgn q * 2 ^ 1024 else r)"

text \<open>The operator \<open>-\<close> of the source.\<close>

definition minus_number :: "number \<Rightarrow> number \<Rightarrow> number" where
  "minus_number a b = round_double (a - b)"


section \<open>Touch gestures: \<open>setupTouchGestures\<close> of \<open>src/utils/mobileTouch.ts\<close>\<close>

text \<open>
  \<open>setupTouchGestures(element, handlers)\<close> binds three listeners that share four
  closure variables. The model keeps these variables in a record, together with the
  host's table of pending timeouts (\<open>setTimeout\<close> adds an entry, \<open>clearTimeout\<close>
  removes it, and the host runs the callback of an entry once its delay has elapsed).

  The DOM delivers \<open>touchstart\<close> and \<open>touchmove\<close> with a non-empty \<open>touches\<close>
  list and \<open>touchend\<close> with a non-empty \<open>changedTouches\<close> list; an input of the
  model carries the coordinates of entry 0 of that list, the only one the listeners
  read.
\<close>

datatype direction = Left | Right | Up | Down

text \<open>
  The calls of the three optional callbacks of \<open>handlers\<close>: \<open>LongPress x y\<close> is
  \<open>onLongPress(e, x, y)\<close>, \<open>DoubleTap\<close> is \<open>onDoubleTap(e)\<close> and \<open>Swipe d\<close> is
  \<open>onSwipe(d)\<close>. The event object \<open>e\<close> that two of them pass on is left out.
\<close>

datatype notification =
    LongPress number number
  | DoubleTap
  | Swipe direction

text \<open>Which of the optional callbacks the caller passed.\<close>

record handlers =
  onLongPress :: bool
  onDoubleTap :: bool
  onSwipe :: bool

type_synonym timer_handle = nat

record gesture_state =
  longPressTimer :: "timer_handle option"
  touchStartX :: number
  touchStartY :: number
  lastTapTime :: number
  timeouts :: "(timer_handle \<times> number) list"
  nextHandle :: timer_handle

definition TOUCH_MOVE_THRESHOLD :: number where
  "TOUCH_MOVE_THRESHOLD = 10"

definition LONG_PRESS_DURATION :: number where
  "LONG_PRESS_DURATION = 500"

definition DOUBLE_TAP_DURATION :: number where
  "DOUBLE_TAP_DURATION = 300"

definition minSwipeDistance :: number where
  "minSwipeDistance = 50"

text \<open>The closure variables as \<open>setupTouchGestures\<close> initialises them; nothing is pending.\<close>

definition setupTouchGestures :: gesture_state where
  "setupTouchGestures =
     \<lparr>longPressTimer = None, touchStartX = 0, touchStartY = 0, lastTapTime = 0,
      timeouts = [], nextHandle = 1\<rparr>"

text \<open>
  The host's timers. \<open>setTimeout\<close> at clock reading \<open>now\<close> returns a fresh handle (a
  positive integer, hence a truthy value when stored) and schedules the callback for
  \<open>now + delay\<close>, a time that the host keeps and that the listeners never compute
  with; \<open>clearTimeout\<close> drops the entry of a handle and does nothing for a handle that
  is no longer pending.
\<close>

definition setTimeout :: "number \<Rightarrow> number \<Rightarrow> gesture_state \<Rightarrow> timer_handle \<times> gesture_state" where
  "setTimeout now delay s =
     (nextHandle s,
      s\<lparr>timeouts := timeouts s @ [(nextHandle s, now + delay)],
        nextHandle := Suc (nextHandle s)\<rparr>)"

definition clearTimeout :: "timer_handle \<Rightarrow> gesture_state \<Rightarrow> gesture_state" where
  "clearTimeout h s = s\<lparr>timeouts := filter (\<lambda>(k, due). k \<noteq> h) (timeouts s)\<rparr>"

text \<open>
  \<open>if (longPressTimer) { clearTimeout(longPressTimer); longPressTimer = null; }\<close>,
  the block that \<open>handleTouchMove\<close> and \<open>handleTouchEnd\<close> share.
\<close>

definition cancelLongPress :: "gesture_state \<Rightarrow> gesture_state" where
  "cancelLongPress s =
     (case longPressTimer s of
        None \<Rightarrow> s
      | Some h \<Rightarrow> (clearTimeout h s)\<lparr>longPressTimer := None\<rparr>)"

definition handleTouchStart ::
  "handlers \<Rightarrow> number \<Rightarrow> number \<Rightarrow> number \<Rightarrow> gesture_state
     \<Rightarrow> gesture_state \<times> notification list" where
  "handleTouchStart hs now x y s =
     (let s1 = s\<lparr>touchStartX := x, touchStartY := y\<rparr> in
      if onLongPress hs then
        (let (h, s2) = setTimeout now LONG_PRESS_DURATION s1
         in (s2\<lparr>longPressTimer := Some h\<rparr>, []))
      else (s1, []))"

definition handleTouchMove ::
  "number \<Rightarrow> number \<Rightarrow> gesture_state \<Rightarrow> gesture_state \<times> notification list" where
  "handleTouchMove x y s =
     (let deltaX = \<bar>minus_number x (touchStartX s)\<bar>;
          deltaY = \<bar>minus_number y (touchStartY s)\<bar>
      in if deltaX > TOUCH_MOVE_THRESHOLD \<or> deltaY > TOUCH_MOVE_THRESHOLD
         then (cancelLongPress s, [])
         else (s, []))"

definition handleTouchEnd ::
  "handlers \<Rightarrow> number \<Rightarrow> number \<Rightarrow> number \<Rightarrow> gesture_state
     \<Rightarrow> gesture_state \<times> notification list" where
  "handleTouchEnd hs now x y s0 =
     (let s = cancelLongPress s0;
          deltaX = minus_number x (touchStartX s);
          deltaY = minus_number y (touchStartY s);
          absX = \<bar>deltaX\<bar>;
          absY = \<bar>deltaY\<bar>
      in if onSwipe hs \<and> (absX > minSwipeDistance \<or> absY > minSwipeDistance) then
           (if absX > absY
            then (s, [Swipe (if deltaX > 0 then Right else Left)])
            else (s, [Swipe (if deltaY > 0 then Down else Up)]))
         else if onDoubleTap hs then
           (if minus_number now (lastTapTime s) < DOUBLE_TAP_DURATION
            then (s\<lparr>lastTapTime := 0\<rparr>, [DoubleTap])
            else (s\<lparr>lastTapTime := now\<rparr>, []))
         else (s, []))"

text \<open>
  The callback that \<open>handleTouchStart\<close> hands to \<open>setTimeout\<close>:
  \<open>handlers.onLongPress?.(e, touchStartX, touchStartY)\<close>. It reads the start
  coordinates when it runs and leaves \<open>longPressTimer\<close> as it is. The host runs it for
  a handle that is still pending and whose delay has elapsed, and never otherwise;
  running it removes the entry.
\<close>

definition is_due :: "timer_handle \<Rightarrow> number \<Rightarrow> gesture_state \<Rightarrow> bool" where
  "is_due h now s = list_ex (\<lambda>(k, due). k = h \<and> due \<le> now) (timeouts s)"

definition longPressTimeout ::
  "handlers \<Rightarrow> number \<Rightarrow> timer_handle \<Rightarrow> gesture_state
     \<Rightarrow> gesture_state \<times> notification list" where
  "longPressTimeout hs now h s =
     (if is_due h now s then
        (clearTimeout h s,
         if onLongPress hs then [LongPress (touchStartX s) (touchStartY s)] else [])
      else (s, []))"

text \<open>
  The inputs of a bound surface: the three touch events and the expiry of a timeout.
  Each comes with the clock reading at which the host's event loop runs it.
\<close>

datatype touch_input =
    TouchStart number number
  | TouchMove number number
  | TouchEnd number number
  | Timeout timer_handle

fun dispatch ::
  "handlers \<Rightarrow> number \<Rightarrow> touch_input \<Rightarrow> gesture_state
     \<Rightarrow> gesture_state \<times> notification list" where
  "dispatch hs now (TouchStart x y) s = handleTouchStart hs now x y s"
| "dispatch hs now (TouchMove x y) s = handleTouchMove x y s"
| "dispatch hs now (TouchEnd x y) s = handleTouchEnd hs now x y s"
| "dispatch hs now (Timeout h) s = longPressTimeout hs now h s"

text \<open>The event loop: one input after the other, each run to completion.\<close>

fun run ::
  "handlers \<Rightarrow> gesture_state \<Rightarrow> (number \<times> touch_input) list
     \<Rightarrow> gesture_state \<times> notification list" where
  "run hs s [] = (s, [])"
| "run hs s ((now, inp) # rest) =
     (let (s1, out1) = dispatch hs now inp s;
          (s2, out2) = run hs s1 rest
      in (s2, out1 @ out2))"

text \<open>Inputs that can occur strictly between a contact-start and its contact-end.\<close>

fun during_contact :: "touch_input \<Rightarrow> bool" where
  "during_contact (TouchMove x y) = True"
| "during_contact (Timeout h) = True"
| "during_contact (TouchStart x y) = False"
| "during_contact (TouchEnd x y) = False"

fun is_long_press :: "notification \<Rightarrow> bool" where
  "is_long_press (LongPress x y) = True"
| "is_long_press DoubleTap = False"
| "is_long_press (Swipe d) = False"

fun is_swipe :: "notification \<Rightarrow> bool" where
  "is_swipe (Swipe d) = True"
| "is_swipe DoubleTap = False"
| "is_swipe (LongPress x y) = False"

fun is_touch_end :: "touch_input \<Rightarrow> bool" where
  "is_touch_end (TouchEnd x y) = True"
| "is_touch_end (TouchStart x y) = False"
| "is_touch_end (TouchMove x y) = False"
| "is_touch_end (Timeout h) = False"

text \<open>
  Every pending timeout is the one whose handle \<open>longPressTimer\<close> holds. This is so
  after binding, and a contact-start with nothing pending establishes it.
\<close>

definition owned :: "gesture_state \<Rightarrow> bool" where
  "owned s = list_all (\<lambda>(k, due). longPressTimer s = Some k) (timeouts s)"


section \<open>The bridge: \<open>mobileBridge\<close>\<close>

subsection \<open>JavaScript values and the host environment\<close>

text \<open>
  An inbound payload (\<open>event.data\<close>) is whatever the sender posted; the cast
  \<open>as NativeMessage\<close> checks nothing at run time. Numbers are integers here (there is
  no \<open>NaN\<close>), and an object is its list of own properties.
\<close>

datatype js_error = ReferenceError | TypeError

datatype js_value =
    Undefined
  | Null
  | Bool bool
  | Num int
  | Str string
  | Obj "(string \<times> js_value) list"

text \<open>The condition of \<open>if (v)\<close>, and its negation \<open>!v\<close>.\<close>

fun truthy :: "js_value \<Rightarrow> bool" where
  "truthy Undefined = False"
| "truthy Null = False"
| "truthy (Bool b) = b"
| "truthy (Num n) = (n \<noteq> 0)"
| "truthy (Str s) = (s \<noteq> [])"
| "truthy (Obj props) = True"

text \<open>
  The property read \<open>v.k\<close>, for a name \<open>k\<close> that no prototype defines: it raises on
  \<open>undefined\<close> and \<open>null\<close>, and gives \<open>undefined\<close> on every other primitive and on an
  object without the property.
\<close>

fun get_property :: "js_value \<Rightarrow> string \<Rightarrow> js_error + js_value" where
  "get_property Undefined k = Inl TypeError"
| "get_property Null k = Inl TypeError"
| "get_property (Obj props) k =
     (case map_of props k of None \<Rightarrow> Inr Undefined | Some v \<Rightarrow> Inr v)"
| "get_property v k = Inr Undefined"

text \<open>\<open>String.prototype.toLowerCase\<close> on ASCII letters, and \<open>String.prototype.includes\<close>.\<close>

definition toLowerCase :: "string \<Rightarrow> string" where
  "toLowerCase s =
     map (\<lambda>c. let n = (of_char c :: nat)
              in if 65 \<le> n \<and> n \<le> 90 then char_of (n + 32) else c) s"

fun includes_str :: "string \<Rightarrow> string \<Rightarrow> bool" where
  "includes_str [] sub = (sub = [])"
| "includes_str (c # cs) sub = (take (length sub) (c # cs) = sub \<or> includes_str cs sub)"

text \<open>
  What the module reads of the global \<open>window\<close>:
  \<^item> \<open>MOBILE_APP\<close> is \<open>window.__MOBILE_APP__\<close>;
  \<^item> \<open>mobile_param\<close> is \<open>new URLSearchParams(window.location.search).get('mobile')\<close>,
    with \<open>None\<close> for \<open>null\<close>;
  \<^item> \<open>uni\<close> is \<open>window.uni\<close>: \<open>None\<close> when it is undefined, otherwise whether the
    object has a \<open>postMessage\<close>;
  \<^item> \<open>has_parent_frame\<close> is \<open>window.parent !== window\<close>;
  \<^item> \<open>ReactNativeWebView\<close> is whether \<open>window.ReactNativeWebView\<close> is there.

  In \<open>environment\<close>, \<open>window\<close> and \<open>navigator_userAgent\<close> are \<open>None\<close> when the global
  \<open>window\<close>, respectively \<open>navigator\<close>, is not defined: reading an undefined global
  raises \<open>ReferenceError\<close>, while \<open>typeof\<close> of it does not.
\<close>

record window_object =
  MOBILE_APP :: js_value
  mobile_param :: "string option"
  uni :: "bool option"
  has_parent_frame :: bool
  ReactNativeWebView :: bool

record environment =
  window :: "window_object option"
  navigator_userAgent :: "string option"

text \<open>\<open>window.uni && window.uni.postMessage\<close>\<close>

definition uni_available :: "window_object \<Rightarrow> bool" where
  "uni_available w = (case uni w of None \<Rightarrow> False | Some send \<Rightarrow> send)"

subsection \<open>Environment detection\<close>

definition isMobileApp :: "environment \<Rightarrow> js_error + bool" where
  "isMobileApp env =
     (if (case window env of None \<Rightarrow> False | Some w \<Rightarrow> truthy (MOBILE_APP w)) then Inr True
      else case window env of
        None \<Rightarrow> Inl ReferenceError
      | Some w \<Rightarrow>
          if mobile_param w = Some ''true'' then Inr True
          else if uni_available w then Inr True
          else (case navigator_userAgent env of
                  None \<Rightarrow> Inl ReferenceError
                | Some ua \<Rightarrow>
                    (let userAgent = toLowerCase ua
                     in Inr (includes_str userAgent ''claudecodeui''
                             \<or> includes_str userAgent ''uni-app''))))"

datatype platform = ios | android | web

definition getPlatform :: "environment \<Rightarrow> js_error + platform" where
  "getPlatform env =
     (case navigator_userAgent env of
        None \<Rightarrow> Inl ReferenceError
      | Some ua \<Rightarrow>
          (let userAgent = toLowerCase ua
           in if includes_str userAgent ''iphone'' \<or> includes_str userAgent ''ipad'' then Inr ios
              else if includes_str userAgent ''android'' then Inr android
              else Inr web))"

subsection \<open>The class \<open>MobileBridge\<close>\<close>

datatype BridgeMessageType =
    SAVE_AUTH | LOGOUT | OPEN_EXTERNAL | COPY_TEXT
  | TOGGLE_FULLSCREEN | SHOW_TOAST | GET_DEVICE_INFO | TOKEN_EXPIRED

record BridgeMessage =
  type :: BridgeMessageType
  data :: "js_value option"

text \<open>
  A handler is known by its identity (the \<open>Set\<close> compares references). The set of
  handlers is the list of its members in insertion order, the order in which
  \<open>Set.prototype.forEach\<close> visits them.
\<close>

type_synonym MessageHandler = nat

record MobileBridge =
  isMobile :: bool
  messageHandlers :: "MessageHandler list"
  initialized :: bool

definition init :: "MobileBridge \<Rightarrow> MobileBridge" where
  "init b = (if initialized b then b else b\<lparr>initialized := True\<rparr>)"

text \<open>The constructor; it runs once, when the module is loaded.\<close>

definition new_MobileBridge :: "environment \<Rightarrow> js_error + MobileBridge" where
  "new_MobileBridge env =
     (let b = \<lparr>isMobile = False, messageHandlers = [], initialized = False\<rparr>
      in case window env of
           None \<Rightarrow> Inr b
         | Some w \<Rightarrow>
             (case isMobileApp env of
                Inl e \<Rightarrow> Inl e
              | Inr m \<Rightarrow> Inr (init (b\<lparr>isMobile := m\<rparr>))))"

text \<open>
  What a method does to the outside: console output, calls of registered handlers and
  calls of the three transports. \<open>UniPostMessage\<close> and \<open>ParentPostMessage\<close> receive
  the message object; \<open>WebViewPostMessage\<close> receives a string.
\<close>

datatype effect =
    LogReceived js_value
  | HandlerCalled MessageHandler js_value
  | LogHandlerError MessageHandler
  | LogSkipping BridgeMessageType
  | LogSending BridgeMessageType
  | WarnNoBridge BridgeMessageType
  | UniPostMessage BridgeMessage
  | ParentPostMessage BridgeMessage string
  | WebViewPostMessage string

text \<open>
  The loop \<open>this.messageHandlers.forEach(handler => { try { handler(message) } catch ... })\<close>.
  A handler is the caller's code: \<open>raises handler message\<close> tells whether its call
  throws. A handler does not subscribe or unsubscribe while the loop runs.
\<close>

fun forEach_handler ::
  "(MessageHandler \<Rightarrow> js_value \<Rightarrow> bool) \<Rightarrow> js_value \<Rightarrow> MessageHandler list \<Rightarrow> effect list" where
  "forEach_handler raises message [] = []"
| "forEach_handler raises message (handler # rest) =
     HandlerCalled handler message
       # (if raises handler message then [LogHandlerError handler] else [])
       @ forEach_handler raises message rest"

definition handleNativeMessage ::
  "(MessageHandler \<Rightarrow> js_value \<Rightarrow> bool) \<Rightarrow> MobileBridge \<Rightarrow> js_value \<Rightarrow> js_error + effect list" where
  "handleNativeMessage raises b message =
     (if \<not> truthy message then Inr []
      else case get_property message ''type'' of
        Inl e \<Rightarrow> Inl e
      | Inr t \<Rightarrow>
          if \<not> truthy t then Inr []
          else Inr (LogReceived t # forEach_handler raises message (messageHandlers b)))"

text \<open>
  \<open>postMessage\<close> reads \<open>window\<close> when it is called, so the environment is an argument.
  \<open>stringify\<close> is the host's \<open>JSON.stringify\<close>.
\<close>

definition postMessage ::
  "(BridgeMessage \<Rightarrow> string) \<Rightarrow> MobileBridge \<Rightarrow> environment \<Rightarrow> BridgeMessage
     \<Rightarrow> js_error + effect list" where
  "postMessage stringify b env message =
     (if \<not> isMobile b then Inr [LogSkipping (type message)]
      else case window env of
        None \<Rightarrow> Inl ReferenceError
      | Some w \<Rightarrow>
          if uni_available w then
            Inr [LogSending (type message), UniPostMessage message]
          else if has_parent_frame w then
            Inr [LogSending (type message), ParentPostMessage message ''*'']
          else if ReactNativeWebView w then
            Inr [LogSending (type message), WebViewPostMessage (stringify message)]
          else Inr [LogSending (type message), WarnNoBridge (type message)])"

text \<open>
  \<open>onMessage\<close> adds the handler (a set: adding a member again changes nothing) and
  returns the closure that deletes it.
\<close>

definition onMessage ::
  "MessageHandler \<Rightarrow> MobileBridge \<Rightarrow> MobileBridge \<times> (MobileBridge \<Rightarrow> MobileBridge)" where
  "onMessage handler b =
     (b\<lparr>messageHandlers :=
          (if handler \<in> set (messageHandlers b) then messageHandlers b
           else messageHandlers b @ [handler])\<rparr>,
      \<lambda>b'. b'\<lparr>messageHandlers := removeAll handler (messageHandlers b')\<rparr>)"

text \<open>The handlers that a list of effects called, in order, and the transport calls.\<close>

fun calls :: "effect list \<Rightarrow> MessageHandler list" where
  "calls [] = []"
| "calls (HandlerCalled handler message # rest) = handler # calls rest"
| "calls (e # rest) = calls rest"

fun is_transport :: "effect \<Rightarrow> bool" where
  "is_transport (UniPostMessage m) = True"
| "is_transport (ParentPostMessage m origin) = True"
| "is_transport (WebViewPostMessage text) = True"
| "is_transport e = False"

section \<open>Properties of the Number subtraction\<close>

subsection \<open>Rounding to an integer\<close>

lemma round_even_of_int [simp]: "round_even (of_int n) = n"
  by (simp add: round_even_def)

lemma round_even_ge: "of_int m \<le> r \<Longrightarrow> m \<le> round_even r"
proof -
  assume "of_int m \<le> r"
  then have "m \<le> \<lfloor>r\<rfloor>" by (simp add: le_floor_iff)
  then show ?thesis by (auto simp: round_even_def Let_def)
qed

lemma round_even_minus: "round_even (- r) = - round_even r"
proof (cases "r \<in> \<int>")
  case True
  then obtain n where "r = of_int n" by (auto elim: Ints_cases)
  then have "- r = of_int (- n)" by simp
  then show ?thesis using \<open>r = of_int n\<close> by (metis round_even_of_int)
next
  case False
  then have "r \<noteq> of_int \<lfloor>r\<rfloor>" by (metis Ints_of_int)
  then have f: "\<lfloor>- r\<rfloor> = - \<lfloor>r\<rfloor> - 1"
    by (simp add: floor_minus ceiling_altdef)
  let ?d = "r - of_int \<lfloor>r\<rfloor>"
  have d: "- r - of_int \<lfloor>- r\<rfloor> = 1 - ?d" by (simp add: f)
  show ?thesis
    unfolding round_even_def Let_def d
    unfolding f
    by (auto simp: field_simps)
qed

subsection \<open>The binary exponent\<close>

lemma powi2_less_imp_less: "(2::rat) powi m < 2 powi n \<Longrightarrow> m < n"
proof (rule ccontr)
  assume l: "(2::rat) powi m < 2 powi n" and "\<not> m < n"
  then have "n \<le> m" by simp
  then have "(2::rat) powi n \<le> 2 powi m" by (rule power_int_increasing) simp
  with l show False by simp
qed

lemma bitlen_powi_bounds:
  assumes "0 < (a::int)"
  shows "(2::rat) powi (bitlen a - 1) \<le> of_int a" and "of_int a < (2::rat) powi bitlen a"
proof -
  from assms have p: "1 \<le> bitlen a"
    using bitlen_eq_zero_iff [of a] bitlen_nonneg [of a] by linarith
  from bitlen_bounds [OF assms]
  have 1: "2 ^ nat (bitlen a - 1) \<le> a" and 2: "a < 2 ^ nat (bitlen a)" by simp_all
  from 1 have "(of_int (2 ^ nat (bitlen a - 1)) :: rat) \<le> of_int a" by (simp only: of_int_le_iff)
  then show "(2::rat) powi (bitlen a - 1) \<le> of_int a"
    using p by (simp add: power_int_def)
  from 2 have "(of_int a :: rat) < of_int (2 ^ nat (bitlen a))" by (simp only: of_int_less_iff)
  then show "of_int a < (2::rat) powi bitlen a"
    using p by (simp add: power_int_def)
qed

lemma exponent_bounds:
  assumes "q \<noteq> 0"
  shows "2 powi exponent q \<le> \<bar>q\<bar>" and "\<bar>q\<bar> < 2 powi (exponent q + 1)"
proof -
  obtain a b where ab: "quotient_of \<bar>q\<bar> = (a, b)" by (cases "quotient_of \<bar>q\<bar>")
  then have b: "0 < b" by (rule quotient_of_denom_pos)
  from ab have q: "\<bar>q\<bar> = of_int a / of_int b" by (rule quotient_of_div)
  from assms have "0 < \<bar>q\<bar>" by simp
  with q b have a: "0 < a" by (simp add: zero_less_divide_iff)
  let ?k = "bitlen a - bitlen b"
  have lo: "(2::rat) powi (?k - 1) < \<bar>q\<bar>"
  proof -
    have "(2::rat) powi (?k - 1) = 2 powi (bitlen a - 1) / 2 powi bitlen b"
      by (simp add: power_int_diff)
    also have "\<dots> \<le> of_int a / 2 powi bitlen b"
      using bitlen_powi_bounds(1) [OF a] by (simp add: divide_right_mono)
    also have "\<dots> < of_int a / of_int b"
      using bitlen_powi_bounds(2) [OF b] a b by (simp add: divide_strict_left_mono)
    finally show ?thesis using q by simp
  qed
  have hi: "\<bar>q\<bar> < (2::rat) powi (?k + 1)"
  proof -
    have "of_int a / of_int b < (2::rat) powi bitlen a / of_int b"
      using bitlen_powi_bounds(2) [OF a] b by (simp add: divide_strict_right_mono)
    also have "\<dots> \<le> 2 powi bitlen a / 2 powi (bitlen b - 1)"
      using bitlen_powi_bounds(1) [OF b] b by (simp add: divide_left_mono)
    also have "\<dots> = 2 powi (?k + 1)"
      by (simp add: power_int_diff [symmetric] algebra_simps)
    finally show ?thesis using q by simp
  qed
  have e: "exponent q = (if 2 powi ?k \<le> \<bar>q\<bar> then ?k else ?k - 1)"
    by (simp add: exponent_def ab Let_def)
  show "2 powi exponent q \<le> \<bar>q\<bar>" using lo by (simp add: e)
  show "\<bar>q\<bar> < 2 powi (exponent q + 1)" using hi by (auto simp: e)
qed

lemma exponent_minus [simp]: "exponent (- q) = exponent q"
  by (simp add: exponent_def)

lemma exponent_ge: "q \<noteq> 0 \<Longrightarrow> 2 powi k \<le> \<bar>q\<bar> \<Longrightarrow> k \<le> exponent q"
proof -
  assume "q \<noteq> 0" and "2 powi k \<le> \<bar>q\<bar>"
  with exponent_bounds(2) [of q] have "(2::rat) powi k < 2 powi (exponent q + 1)" by simp
  then have "k < exponent q + 1" by (rule powi2_less_imp_less)
  then show ?thesis by simp
qed

lemma exponent_less: "q \<noteq> 0 \<Longrightarrow> \<bar>q\<bar> < 2 powi k \<Longrightarrow> exponent q < k"
proof -
  assume "q \<noteq> 0" and "\<bar>q\<bar> < 2 powi k"
  with exponent_bounds(1) [of q] have "(2::rat) powi exponent q < 2 powi k" by simp
  then show ?thesis by (rule powi2_less_imp_less)
qed

subsection \<open>Rounding to binary64\<close>

text \<open>
  Rounding is odd, keeps the sign, never goes below an integer up to \<open>2 ^ 53\<close> that
  the argument reaches, and leaves every finite Number as it is.
\<close>

lemma round_double_minus: "round_double (- q) = - round_double q"
  by (simp add: round_double_def Let_def round_even_minus sgn_minus)

lemma round_double_0 [simp]: "round_double 0 = 0"
  by (simp add: round_double_def)

lemma round_double_nonneg:
  assumes "0 \<le> q"
  shows "0 \<le> round_double q"
proof (cases "q = 0")
  case True
  then show ?thesis by simp
next
  case False
  with assms have q: "0 < q" by simp
  let ?u = "(2::rat) powi (max (exponent q) (- 1022) - 52)"
  have u: "0 < ?u" by simp
  with q have "of_int 0 \<le> q / ?u" by simp
  then have "0 \<le> round_even (q / ?u)" by (rule round_even_ge)
  then have "0 \<le> of_int (round_even (q / ?u)) * ?u" using u by simp
  with q False show ?thesis
    by (simp add: round_double_def Let_def)
qed

lemma round_double_ge:
  assumes c: "1 \<le> c" "c \<le> 2 ^ 53" and q: "of_int c \<le> q"
  shows "of_int c \<le> round_double q"
proof -
  from c q have q0: "0 < q" "q \<noteq> 0" by simp_all
  from c q have "(2::rat) powi 0 \<le> \<bar>q\<bar>" by simp
  with q0 have e0: "0 \<le> exponent q" by (intro exponent_ge) simp_all
  let ?e = "exponent q"
  let ?u = "(2::rat) powi (?e - 52)"
  let ?r = "of_int (round_even (q / ?u)) * ?u"
  have u: "0 < ?u" by simp
  have m: "max ?e (- 1022) = ?e" using e0 by simp
  have c53: "(of_int c :: rat) \<le> 2 ^ 53"
  proof -
    from c(2) have "(of_int c :: rat) \<le> of_int (2 ^ 53)" by (simp only: of_int_le_iff)
    then show ?thesis by simp
  qed
  have r: "of_int c \<le> ?r"
  proof (cases "?e \<le> 52")
    case True
    let ?k = "nat (52 - ?e)"
    have ku: "(2::rat) ^ ?k * ?u = 1"
    proof -
      have "(2::rat) ^ ?k = 2 powi (52 - ?e)" using True by (simp add: power_int_def)
      then have "(2::rat) ^ ?k * ?u = 2 powi (52 - ?e) * 2 powi (?e - 52)" by simp
      also have "\<dots> = 2 powi 0" by (simp add: power_int_add [symmetric] del: power_int_0_right)
      finally show ?thesis by simp
    qed
    have "of_int c / ?u = of_int c * 2 ^ ?k"
      using ku u by (simp add: field_simps)
    then have "(of_int (c * 2 ^ ?k) :: rat) = of_int c / ?u" by simp
    also have "\<dots> \<le> q / ?u" using q u by (simp add: divide_right_mono)
    finally have "c * 2 ^ ?k \<le> round_even (q / ?u)" by (rule round_even_ge)
    then have "(of_int (c * 2 ^ ?k) :: rat) \<le> of_int (round_even (q / ?u))"
      by (simp only: of_int_le_iff)
    then have 1: "(of_int (c * 2 ^ ?k) :: rat) * ?u \<le> ?r"
      using u by (simp only: mult_le_cancel_right_pos)
    have "(of_int (c * 2 ^ ?k) :: rat) * ?u = of_int c * (2 ^ ?k * ?u)"
      by (simp add: mult.assoc)
    then have 2: "(of_int (c * 2 ^ ?k) :: rat) * ?u = of_int c"
      by (simp only: ku mult_1_right)
    from 1 [unfolded 2] show ?thesis .
  next
    case False
    have "(2::rat) powi 52 * ?u = 2 powi ?e"
      by (simp add: power_int_add [symmetric] del: power_int_numeral)
    then have pe: "(2::rat) ^ 52 * ?u = 2 powi ?e" by simp
    have "(2::rat) powi ?e \<le> q" using exponent_bounds(1) [OF q0(2)] q0 by simp
    then have "(2::rat) ^ 52 * ?u / ?u \<le> q / ?u"
      using u pe by (simp add: divide_right_mono)
    then have "(of_int (2 ^ 52) :: rat) \<le> q / ?u" using u by simp
    then have "2 ^ 52 \<le> round_even (q / ?u)" by (rule round_even_ge)
    then have "(of_int (2 ^ 52) :: rat) \<le> of_int (round_even (q / ?u))"
      by (simp only: of_int_le_iff)
    then have "(2::rat) ^ 52 * ?u \<le> ?r" using u by (simp add: mult_right_mono)
    with pe have "(2::rat) powi ?e \<le> ?r" by simp
    moreover have "(2::rat) powi 53 \<le> 2 powi ?e"
      using False by (intro power_int_increasing) simp_all
    ultimately have "(2::rat) ^ 53 \<le> ?r" by simp
    with c53 show ?thesis by linarith
  qed
  have big: "(of_int c :: rat) \<le> 2 ^ 1024"
  proof -
    have "(2::rat) ^ 53 \<le> 2 ^ 1024" by (rule power_increasing) simp_all
    with c53 show ?thesis by linarith
  qed
  show ?thesis
    using r big q0 m by (simp add: round_double_def Let_def)
qed

lemma round_double_exact:
  assumes m: "\<bar>m\<bar> < 2 ^ 53" and j: "- 1074 \<le> j" "j \<le> 971"
  shows "round_double (of_int m * 2 powi j) = of_int m * 2 powi j"
proof (cases "m = 0")
  case True
  then show ?thesis by simp
next
  case False
  define q :: rat where "q = of_int m * 2 powi j"
  define e where "e = max (exponent q) (- 1022)"
  define u :: rat where "u = 2 powi (e - 52)"
  define d where "d = nat (j - (e - 52))"
  from False have q0: "q \<noteq> 0" by (simp add: q_def)
  have am: "(of_int \<bar>m\<bar> :: rat) < 2 ^ 53"
  proof -
    from m have "(of_int \<bar>m\<bar> :: rat) < of_int (2 ^ 53)" by (simp only: of_int_less_iff)
    then show ?thesis by simp
  qed
  have aq: "\<bar>q\<bar> = of_int \<bar>m\<bar> * 2 powi j" by (simp add: q_def abs_mult)
  have lt: "\<bar>q\<bar> < 2 powi (j + 53)"
  proof -
    have "\<bar>q\<bar> < 2 ^ 53 * 2 powi j" unfolding aq using am by (simp add: mult_strict_right_mono)
    also have "\<dots> = 2 powi (j + 53)" by (simp add: power_int_add)
    finally show ?thesis .
  qed
  then have "exponent q < j + 53" using q0 by (intro exponent_less)
  with j have dn: "0 \<le> j - (e - 52)" by (simp add: e_def)
  have u: "0 < u" by (simp add: u_def)
  have ju: "(2::rat) powi j = 2 ^ d * u"
  proof -
    have "(2::rat) ^ d = 2 powi (j - (e - 52))" using dn by (simp add: power_int_def d_def)
    then have "(2::rat) ^ d * u = 2 powi (j - (e - 52)) * 2 powi (e - 52)" by (simp add: u_def)
    also have "\<dots> = 2 powi j" by (simp add: power_int_add [symmetric])
    finally show ?thesis by simp
  qed
  have "q / u = of_int m * 2 ^ d" using u by (simp add: q_def ju)
  then have qu: "q / u = of_int (m * 2 ^ d)" by simp
  have "of_int (round_even (q / u)) * u = of_int (m * 2 ^ d) * u"
    unfolding qu round_even_of_int ..
  also have "\<dots> = q" by (simp add: q_def ju mult.assoc)
  finally have r: "of_int (round_even (q / u)) * u = q" .
  have "(2::rat) powi (j + 53) \<le> 2 powi 1024"
    using j by (intro power_int_increasing) simp_all
  with lt have "\<bar>q\<bar> < 2 ^ 1024" by simp
  with r q0 have "round_double q = q"
    unfolding round_double_def Let_def e_def [symmetric] u_def [symmetric] by simp
  then show ?thesis by (simp add: q_def)
qed

lemma round_double_of_int: "\<bar>n\<bar> < 2 ^ 53 \<Longrightarrow> round_double (of_int n) = of_int n"
  using round_double_exact [of n 0] by simp

lemma round_double_numeral [simp]:
  "(numeral k :: int) < 2 ^ 53 \<Longrightarrow> round_double (numeral k) = numeral k"
  using round_double_of_int [of "numeral k"] by simp

lemma round_double_neg_numeral [simp]:
  "(numeral k :: int) < 2 ^ 53 \<Longrightarrow> round_double (- numeral k) = - numeral k"
  by (simp add: round_double_minus)

lemma round_double_1 [simp]: "round_double 1 = 1"
  using round_double_of_int [of 1] by simp

lemma round_double_abs: "\<bar>round_double q\<bar> = round_double \<bar>q\<bar>"
proof (cases "0 \<le> q")
  case True
  then show ?thesis using round_double_nonneg [of q] by simp
next
  case False
  then have "0 \<le> - q" by simp
  then have "0 \<le> round_double (- q)" by (rule round_double_nonneg)
  then show ?thesis using False by (simp add: round_double_minus)
qed

lemma round_double_pos_iff:
  assumes "round_double q \<noteq> 0"
  shows "0 < round_double q \<longleftrightarrow> 0 < q"
proof (cases "0 \<le> q")
  case True
  with assms round_double_nonneg [of q] have "0 < round_double q" by simp
  moreover from assms True have "0 < q" by (cases "q = 0") simp_all
  ultimately show ?thesis by simp
next
  case False
  then have "0 \<le> - q" by simp
  then have "0 \<le> round_double (- q)" by (rule round_double_nonneg)
  then have "round_double q \<le> 0" by (simp add: round_double_minus)
  with False show ?thesis by simp
qed

text \<open>The subtraction is exact when the exact difference is a finite Number.\<close>

lemma minus_number_exact:
  assumes "a - b = of_int m * 2 powi j" and "\<bar>m\<bar> < 2 ^ 53" and "- 1074 \<le> j" and "j \<le> 971"
  shows "minus_number a b = a - b"
  using round_double_exact [OF assms(2-4)] assms(1) by (simp add: minus_number_def)

lemma minus_number_abs_swap: "\<bar>minus_number a b\<bar> = \<bar>minus_number b a\<bar>"
proof -
  have "minus_number b a = - minus_number a b"
    using round_double_minus [of "a - b"] by (simp add: minus_number_def)
  then show ?thesis by simp
qed

text \<open>
  A difference of at least 51, or of at least 300, in magnitude is above 50, respectively
  not below 300, after rounding.
\<close>

lemma minus_number_far:
  assumes "51 \<le> \<bar>a - b\<bar>"
  shows "50 < \<bar>minus_number a b\<bar>"
proof -
  from assms have "of_int 51 \<le> \<bar>a - b\<bar>" by simp
  then have "of_int 51 \<le> round_double \<bar>a - b\<bar>" by (intro round_double_ge) simp_all
  then show ?thesis by (simp add: minus_number_def round_double_abs)
qed

lemma minus_number_zero_ge:
  assumes "300 \<le> a"
  shows "300 \<le> minus_number a 0"
proof -
  from assms have "of_int 300 \<le> a" by simp
  then have "of_int 300 \<le> round_double a" by (intro round_double_ge) simp_all
  then show ?thesis by (simp add: minus_number_def)
qed

text \<open>
  Where the rounding shows: one pixel against \<open>2 ^ 53\<close> pixels is lost, and a
  difference just above 50 is 50.
\<close>

lemma exponent_eqI:
  assumes "2 powi k \<le> \<bar>q\<bar>" and "\<bar>q\<bar> < 2 powi (k + 1)"
  shows "exponent q = k"
proof -
  have "(0::rat) < 2 powi k" by simp
  then have "0 < \<bar>q\<bar>" using assms(1) by (rule less_le_trans)
  then have q: "q \<noteq> 0" by simp
  from exponent_ge [OF q assms(1)] exponent_less [OF q assms(2)] show ?thesis by simp
qed

lemma minus_number_rounds:
  "minus_number 1 (- (2 ^ 53)) = 2 ^ 53"
  "minus_number 0 (- (2 ^ 53)) = 2 ^ 53"
proof -
  have e: "exponent 9007199254740993 = 53" by (rule exponent_eqI) simp_all
  have f: "\<lfloor>9007199254740993 / (2::rat)\<rfloor> = 4503599627370496" by (simp add: floor_eq_iff)
  have r: "round_even (9007199254740993 / 2) = 4503599627370496"
    unfolding round_even_def Let_def f by simp
  have "round_double 9007199254740993 = 9007199254740992"
    by (simp add: round_double_def e r Let_def)
  then show "minus_number 1 (- (2 ^ 53)) = 2 ^ 53"
    by (simp add: minus_number_def)
  have "round_double (of_int (2 ^ 52) * 2 powi 1) = of_int (2 ^ 52) * 2 powi 1"
    by (rule round_double_exact) simp_all
  then show "minus_number 0 (- (2 ^ 53)) = 2 ^ 53"
    by (simp add: minus_number_def)
qed

section \<open>Properties of the gesture recogniser\<close>

subsection \<open>What one input changes\<close>

lemmas gesture_defs =
  setupTouchGestures_def handleTouchStart_def handleTouchMove_def handleTouchEnd_def
  longPressTimeout_def is_due_def setTimeout_def clearTimeout_def cancelLongPress_def
  LONG_PRESS_DURATION_def TOUCH_MOVE_THRESHOLD_def minSwipeDistance_def
  DOUBLE_TAP_DURATION_def minus_number_def Let_def

lemma clearTimeout_fields [simp]:
  "touchStartX (clearTimeout h s) = touchStartX s"
  "touchStartY (clearTimeout h s) = touchStartY s"
  "lastTapTime (clearTimeout h s) = lastTapTime s"
  "longPressTimer (clearTimeout h s) = longPressTimer s"
  "nextHandle (clearTimeout h s) = nextHandle s"
  by (simp_all add: clearTimeout_def)

lemma cancelLongPress_fields [simp]:
  "touchStartX (cancelLongPress s) = touchStartX s"
  "touchStartY (cancelLongPress s) = touchStartY s"
  "lastTapTime (cancelLongPress s) = lastTapTime s"
  "longPressTimer (cancelLongPress s) = None"
  by (simp_all add: cancelLongPress_def split: option.splits)

lemma length_clearTimeout: "length (timeouts (clearTimeout h s)) \<le> length (timeouts s)"
  by (simp add: clearTimeout_def)

lemma length_cancelLongPress: "length (timeouts (cancelLongPress s)) \<le> length (timeouts s)"
  by (simp add: cancelLongPress_def length_clearTimeout split: option.splits)

lemma is_due_shrinks:
  "is_due h now s \<Longrightarrow> length (timeouts (clearTimeout h s)) < length (timeouts s)"
proof -
  assume "is_due h now s"
  then obtain due where "(h, due) \<in> set (timeouts s)"
    by (auto simp: is_due_def list_ex_iff)
  then have "length (filter (\<lambda>(k, due). k \<noteq> h) (timeouts s)) < length (timeouts s)"
    by (rule length_filter_less) simp
  then show ?thesis
    by (simp add: clearTimeout_def)
qed

lemma run_append:
  "run hs s (xs @ ys) =
     (let (s1, out1) = run hs s xs; (s2, out2) = run hs s1 ys in (s2, out1 @ out2))"
  by (induction xs arbitrary: s) (auto split: prod.splits)

text \<open>
  Between contact-start and contact-end the start coordinates and the last-tap
  timestamp stay as they are, only long presses are notified, and each notification
  uses up a pending timeout.
\<close>

lemma during_contact_keeps:
  assumes "during_contact inp" and "dispatch hs now inp s = (s', out)"
  shows "touchStartX s' = touchStartX s \<and> touchStartY s' = touchStartY s
         \<and> lastTapTime s' = lastTapTime s"
  using assms
  by (cases inp) (auto simp: handleTouchMove_def longPressTimeout_def Let_def split: if_splits)

lemma during_contact_budget:
  assumes "during_contact inp" and "dispatch hs now inp s = (s', out)"
  shows "length (timeouts s') + length out \<le> length (timeouts s) \<and> list_all is_long_press out"
proof (cases inp)
  case (TouchMove x y)
  with assms show ?thesis
    using length_cancelLongPress [of s]
    by (auto simp: handleTouchMove_def Let_def split: if_splits)
next
  case (Timeout h)
  with assms show ?thesis
    using is_due_shrinks [of h now s]
    by (auto simp: longPressTimeout_def split: if_splits)
qed (use assms in auto)

lemma run_during_contact_keeps:
  assumes "list_all (\<lambda>e. during_contact (snd e)) evs" and "run hs s evs = (s', out)"
  shows "touchStartX s' = touchStartX s \<and> touchStartY s' = touchStartY s
         \<and> lastTapTime s' = lastTapTime s"
  using assms
proof (induction evs arbitrary: s s' out)
  case Nil
  then show ?case by simp
next
  case (Cons e evs)
  obtain now inp where e: "e = (now, inp)" by (cases e)
  obtain s1 out1 where d: "dispatch hs now inp s = (s1, out1)" by (cases "dispatch hs now inp s")
  obtain s2 out2 where r: "run hs s1 evs = (s2, out2)" by (cases "run hs s1 evs")
  from Cons.prems e d r have s': "s' = s2" by simp
  from Cons.prems e have dc: "during_contact inp" by simp
  have "touchStartX s1 = touchStartX s \<and> touchStartY s1 = touchStartY s
         \<and> lastTapTime s1 = lastTapTime s" by (rule during_contact_keeps [OF dc d])
  moreover from Cons.prems have rest: "list_all (\<lambda>e. during_contact (snd e)) evs" by simp
  have "touchStartX s2 = touchStartX s1 \<and> touchStartY s2 = touchStartY s1
         \<and> lastTapTime s2 = lastTapTime s1" by (rule Cons.IH [OF rest r])
  ultimately show ?case using s' by simp
qed

lemma run_during_contact_budget:
  assumes "list_all (\<lambda>e. during_contact (snd e)) evs" and "run hs s evs = (s', out)"
  shows "length (timeouts s') + length out \<le> length (timeouts s) \<and> list_all is_long_press out"
  using assms
proof (induction evs arbitrary: s s' out)
  case Nil
  then show ?case by simp
next
  case (Cons e evs)
  obtain now inp where e: "e = (now, inp)" by (cases e)
  obtain s1 out1 where d: "dispatch hs now inp s = (s1, out1)" by (cases "dispatch hs now inp s")
  obtain s2 out2 where r: "run hs s1 evs = (s2, out2)" by (cases "run hs s1 evs")
  from Cons.prems e d r have s': "s' = s2" "out = out1 @ out2" by simp_all
  from Cons.prems e have dc: "during_contact inp" by simp
  have 1: "length (timeouts s1) + length out1 \<le> length (timeouts s) \<and> list_all is_long_press out1"
    by (rule during_contact_budget [OF dc d])
  from Cons.prems have rest: "list_all (\<lambda>e. during_contact (snd e)) evs" by simp
  have 2: "length (timeouts s2) + length out2 \<le> length (timeouts s1) \<and> list_all is_long_press out2"
    by (rule Cons.IH [OF rest r])
  from 1 2 show ?case using s' by simp
qed

lemma owned_cancelLongPress: "owned s \<Longrightarrow> timeouts (cancelLongPress s) = []"
proof (cases "longPressTimer s")
  case None
  assume "owned s"
  with None have "\<forall>e \<in> set (timeouts s). False"
    by (auto simp: owned_def list_all_iff)
  then have "timeouts s = []" by (cases "timeouts s") auto
  with None show ?thesis by (simp add: cancelLongPress_def)
next
  case (Some h)
  assume "owned s"
  with Some show ?thesis
    by (auto simp: owned_def cancelLongPress_def clearTimeout_def list_all_iff filter_empty_conv)
qed

lemma touch_start_sets:
  assumes "handleTouchStart hs now x y s = (s', out)"
  shows "out = [] \<and> touchStartX s' = x \<and> touchStartY s' = y \<and> lastTapTime s' = lastTapTime s"
  using assms
  by (auto simp: handleTouchStart_def setTimeout_def Let_def split: if_splits)

lemma touch_start_idle:
  assumes "timeouts s = []" and "handleTouchStart hs now x y s = (s', out)"
  shows "owned s' \<and> out = [] \<and> length (timeouts s') \<le> 1
         \<and> touchStartX s' = x \<and> touchStartY s' = y \<and> lastTapTime s' = lastTapTime s"
  using assms
  by (auto simp: handleTouchStart_def setTimeout_def owned_def Let_def split: if_splits)

lemma during_contact_owned:
  assumes "during_contact inp" and "dispatch hs now inp s = (s', out)" and "owned s"
  shows "owned s'"
proof (cases inp)
  case (TouchMove x y)
  with assms show ?thesis
    using owned_cancelLongPress [of s]
    by (auto simp: handleTouchMove_def Let_def owned_def split: if_splits)
next
  case (Timeout h)
  with assms show ?thesis
    by (auto simp: longPressTimeout_def owned_def clearTimeout_def list_all_iff split: if_splits)
qed (use assms in auto)

lemma run_during_contact_owned:
  assumes "list_all (\<lambda>e. during_contact (snd e)) evs" and "run hs s evs = (s', out)"
    and "owned s"
  shows "owned s'"
  using assms
proof (induction evs arbitrary: s s' out)
  case Nil
  then show ?case by simp
next
  case (Cons e evs)
  obtain now inp where e: "e = (now, inp)" by (cases e)
  obtain s1 out1 where d: "dispatch hs now inp s = (s1, out1)" by (cases "dispatch hs now inp s")
  obtain s2 out2 where r: "run hs s1 evs = (s2, out2)" by (cases "run hs s1 evs")
  from Cons.prems e d r have s': "s' = s2" by simp
  from Cons.prems e have dc: "during_contact inp" by simp
  from Cons.prems have rest: "list_all (\<lambda>e. during_contact (snd e)) evs" by simp
  have "owned s1" by (rule during_contact_owned [OF dc d Cons.prems(3)])
  then have "owned s2" by (rule Cons.IH [OF rest r])
  then show ?case using s' by simp
qed

lemma touch_end_out:
  assumes "handleTouchEnd hs now x y s = (s', out)"
  shows "length out \<le> 1 \<and> list_all (\<lambda>g. \<not> is_long_press g) out
         \<and> length (timeouts s') \<le> length (timeouts s)"
  using assms length_cancelLongPress [of s]
  by (auto simp: handleTouchEnd_def Let_def split: if_splits)

lemma not_end_keeps_lastTapTime:
  assumes "\<not> is_touch_end inp" and "dispatch hs now inp s = (s', out)"
  shows "lastTapTime s' = lastTapTime s \<and> list_all (\<lambda>g. g \<noteq> DoubleTap) out"
  using assms
  by (cases inp)
     (auto simp: handleTouchStart_def setTimeout_def handleTouchMove_def longPressTimeout_def
        Let_def split: if_splits)

lemma run_not_end_keeps_lastTapTime:
  assumes "list_all (\<lambda>e. \<not> is_touch_end (snd e)) evs" and "run hs s evs = (s', out)"
  shows "lastTapTime s' = lastTapTime s \<and> list_all (\<lambda>g. g \<noteq> DoubleTap) out"
  using assms
proof (induction evs arbitrary: s s' out)
  case Nil
  then show ?case by simp
next
  case (Cons e evs)
  obtain now inp where e: "e = (now, inp)" by (cases e)
  obtain s1 out1 where d: "dispatch hs now inp s = (s1, out1)" by (cases "dispatch hs now inp s")
  obtain s2 out2 where r: "run hs s1 evs = (s2, out2)" by (cases "run hs s1 evs")
  from Cons.prems e d r have s': "s' = s2" "out = out1 @ out2" by simp_all
  from Cons.prems e have ne: "\<not> is_touch_end inp" by simp
  from Cons.prems have rest: "list_all (\<lambda>e. \<not> is_touch_end (snd e)) evs" by simp
  have 1: "lastTapTime s1 = lastTapTime s \<and> list_all (\<lambda>g. g \<noteq> DoubleTap) out1"
    by (rule not_end_keeps_lastTapTime [OF ne d])
  have 2: "lastTapTime s2 = lastTapTime s1 \<and> list_all (\<lambda>g. g \<noteq> DoubleTap) out2"
    by (rule Cons.IH [OF rest r])
  from 1 2 show ?case using s' by simp
qed

lemma touch_end_swipe:
  assumes "onSwipe hs"
    and "\<bar>minus_number x (touchStartX s)\<bar> > 50 \<or> \<bar>minus_number y (touchStartY s)\<bar> > 50"
  shows "handleTouchEnd hs now x y s =
           (cancelLongPress s,
            [Swipe (if \<bar>minus_number x (touchStartX s)\<bar> > \<bar>minus_number y (touchStartY s)\<bar>
                    then (if minus_number x (touchStartX s) > 0 then Right else Left)
                    else (if minus_number y (touchStartY s) > 0 then Down else Up))])"
  using assms by (simp add: handleTouchEnd_def minSwipeDistance_def Let_def)

subsection \<open>Contact sequences\<close>

text \<open>
  A contact sequence is a contact-start, inputs that pass \<open>during_contact\<close>, and a
  contact-end. \<open>contact_split\<close> cuts its run at the contact-end.
\<close>

lemma contact_split:
  assumes mids: "list_all (\<lambda>e. during_contact (snd e)) mids"
  obtains sa s1 out1 s2 out2 where
    "handleTouchStart hs t0 x0 y0 s = (sa, [])"
    "run hs sa mids = (s1, out1)"
    "handleTouchEnd hs te x1 y1 s1 = (s2, out2)"
    "run hs s ((t0, TouchStart x0 y0) # mids) = (s1, out1)"
    "run hs s ((t0, TouchStart x0 y0) # mids @ [(te, TouchEnd x1 y1)]) = (s2, out1 @ out2)"
    "list_all is_long_press out1"
    "touchStartX s1 = x0" "touchStartY s1 = y0" "lastTapTime s1 = lastTapTime s"
proof -
  obtain sa outa where a: "handleTouchStart hs t0 x0 y0 s = (sa, outa)"
    by (cases "handleTouchStart hs t0 x0 y0 s")
  obtain s1 out1 where b: "run hs sa mids = (s1, out1)" by (cases "run hs sa mids")
  obtain s2 out2 where c: "handleTouchEnd hs te x1 y1 s1 = (s2, out2)"
    by (cases "handleTouchEnd hs te x1 y1 s1")
  note st = touch_start_sets [OF a]
  note bu = run_during_contact_budget [OF mids b]
  note ke = run_during_contact_keeps [OF mids b]
  have a': "handleTouchStart hs t0 x0 y0 s = (sa, [])" using a st by simp
  have r1: "run hs s ((t0, TouchStart x0 y0) # mids) = (s1, out1)"
    using a' b by simp
  have r2: "run hs s ((t0, TouchStart x0 y0) # mids @ [(te, TouchEnd x1 y1)]) = (s2, out1 @ out2)"
    using a' b c by (simp add: run_append)
  show thesis
    using that [OF a' b c r1 r2] bu ke st by simp
qed

lemma contact_split_idle:
  assumes idle: "timeouts s = []"
    and mids: "list_all (\<lambda>e. during_contact (snd e)) mids"
    and r: "run hs s ((t0, TouchStart x0 y0) # mids) = (s1, out1)"
  shows "owned s1 \<and> length (timeouts s1) + length out1 \<le> 1"
proof -
  obtain sa outa where a: "handleTouchStart hs t0 x0 y0 s = (sa, outa)"
    by (cases "handleTouchStart hs t0 x0 y0 s")
  obtain sb outb where b: "run hs sa mids = (sb, outb)" by (cases "run hs sa mids")
  note st = touch_start_idle [OF idle a]
  from r a b st have eq: "s1 = sb" "out1 = outb" by simp_all
  from run_during_contact_owned [OF mids b] st have "owned sb" by simp
  moreover from run_during_contact_budget [OF mids b] st
  have "length (timeouts sb) + length outb \<le> 1" by simp
  ultimately show ?thesis using eq by simp
qed

text \<open>
  A sequence that begins with no timeout pending ends with none pending, so the
  sequences of a surface begin that way one after the other.
\<close>

lemma contact_sequence_returns_idle:
  assumes idle: "timeouts s = []"
    and mids: "list_all (\<lambda>e. during_contact (snd e)) mids"
    and whole: "run hs s ((t0, TouchStart x0 y0) # mids @ [(te, TouchEnd x1 y1)]) = (s', out)"
  shows "timeouts s' = [] \<and> longPressTimer s' = None"
proof -
  from mids obtain s1 out1 s2 out2 where
    e: "handleTouchEnd hs te x1 y1 s1 = (s2, out2)"
    and r1: "run hs s ((t0, TouchStart x0 y0) # mids) = (s1, out1)"
    and r: "run hs s ((t0, TouchStart x0 y0) # mids @ [(te, TouchEnd x1 y1)]) = (s2, out1 @ out2)"
    by (rule contact_split)
  from contact_split_idle [OF idle mids r1] have "owned s1" by simp
  then have "timeouts (cancelLongPress s1) = []" by (rule owned_cancelLongPress)
  with e have "timeouts s2 = [] \<and> longPressTimer s2 = None"
    by (auto simp: handleTouchEnd_def Let_def split: if_splits)
  with r whole show ?thesis by simp
qed

lemma swipe_sequence:
  assumes sw: "onSwipe hs"
    and mids: "list_all (\<lambda>e. during_contact (snd e)) mids"
    and far: "\<bar>minus_number x1 x0\<bar> > 50 \<or> \<bar>minus_number y1 y0\<bar> > 50"
    and whole: "run hs s ((t0, TouchStart x0 y0) # mids @ [(te, TouchEnd x1 y1)]) = (s', out)"
  shows "filter (\<lambda>g. \<not> is_long_press g) out =
           [Swipe (if \<bar>minus_number x1 x0\<bar> > \<bar>minus_number y1 y0\<bar>
                   then (if minus_number x1 x0 > 0 then Right else Left)
                   else (if minus_number y1 y0 > 0 then Down else Up))]
         \<and> lastTapTime s' = lastTapTime s"
proof -
  from mids obtain s1 out1 s2 out2 where
    e: "handleTouchEnd hs te x1 y1 s1 = (s2, out2)"
    and r: "run hs s ((t0, TouchStart x0 y0) # mids @ [(te, TouchEnd x1 y1)]) = (s2, out1 @ out2)"
    and lp: "list_all is_long_press out1"
    and k: "touchStartX s1 = x0" "touchStartY s1 = y0" "lastTapTime s1 = lastTapTime s"
    by (rule contact_split)
  from far k have far1:
    "\<bar>minus_number x1 (touchStartX s1)\<bar> > 50 \<or> \<bar>minus_number y1 (touchStartY s1)\<bar> > 50"
    by simp
  from lp have f: "filter (\<lambda>g. \<not> is_long_press g) out1 = []" by (simp add: list_all_iff)
  from whole r have "s' = s2" "out = out1 @ out2" by simp_all
  with touch_end_swipe [OF sw far1, of te] e k f show ?thesis by auto
qed

text \<open>
  For whole pixel coordinates below \<open>2 ^ 52\<close> in magnitude the subtraction is exact, and
  the swipe goes by the exact displacement.
\<close>

lemma minus_number_of_int:
  assumes "\<bar>i\<bar> < 2 ^ 52" and "\<bar>k\<bar> < 2 ^ 52"
  shows "minus_number (of_int i) (of_int k) = of_int (i - k)"
proof -
  from assms have "\<bar>i - k\<bar> < 2 ^ 53" by simp
  then have "round_double (of_int (i - k)) = of_int (i - k)" by (rule round_double_of_int)
  then show ?thesis by (simp add: minus_number_def)
qed

lemma swipe_sequence_pixels:
  assumes sw: "onSwipe hs"
    and mids: "list_all (\<lambda>e. during_contact (snd e)) mids"
    and px: "\<bar>i0\<bar> < 2 ^ 52" "\<bar>j0\<bar> < 2 ^ 52" "\<bar>i1\<bar> < 2 ^ 52" "\<bar>j1\<bar> < 2 ^ 52"
    and far: "max \<bar>i1 - i0\<bar> \<bar>j1 - j0\<bar> > 50"
    and whole: "run hs s ((t0, TouchStart (of_int i0) (of_int j0)) # mids
                  @ [(te, TouchEnd (of_int i1) (of_int j1))]) = (s', out)"
  shows "filter (\<lambda>g. \<not> is_long_press g) out =
           [Swipe (if \<bar>i1 - i0\<bar> > \<bar>j1 - j0\<bar>
                   then (if i1 - i0 > 0 then Right else Left)
                   else (if j1 - j0 > 0 then Down else Up))]
         \<and> lastTapTime s' = lastTapTime s"
proof -
  note dx = minus_number_of_int [OF px(3) px(1)]
  note dy = minus_number_of_int [OF px(4) px(2)]
  from far have "\<bar>i1 - i0\<bar> > 50 \<or> \<bar>j1 - j0\<bar> > 50" by linarith
  then have "\<bar>(of_int (i1 - i0) :: rat)\<bar> > 50 \<or> \<bar>(of_int (j1 - j0) :: rat)\<bar> > 50"
    by (metis of_int_abs of_int_less_iff of_int_numeral)
  then have far': "\<bar>minus_number (of_int i1) (of_int i0)\<bar> > 50
      \<or> \<bar>minus_number (of_int j1) (of_int j0)\<bar> > 50"
    by (simp only: dx dy)
  have c: "\<bar>(of_int (i1 - i0) :: rat)\<bar> > \<bar>of_int (j1 - j0)\<bar> \<longleftrightarrow> \<bar>i1 - i0\<bar> > \<bar>j1 - j0\<bar>"
    by (metis of_int_abs of_int_less_iff)
  from swipe_sequence [OF sw mids far' whole] show ?thesis
    unfolding dx dy c by simp
qed

text \<open>
  Beyond that range the rounding decides: from \<open>(- (2 ^ 53), - (2 ^ 53))\<close> to \<open>(1, 0)\<close>
  both computed displacements are \<open>2 ^ 53\<close>, and the swipe is down.
\<close>

lemma swipe_of_rounded_displacement:
  "snd (run \<lparr>onLongPress = False, onDoubleTap = False, onSwipe = True\<rparr> setupTouchGestures
          [(1000, TouchStart (- (2 ^ 53)) (- (2 ^ 53))), (1200, TouchEnd 1 0)])
   = [Swipe Down]"
  by (simp add: setupTouchGestures_def handleTouchStart_def handleTouchEnd_def
      cancelLongPress_def minSwipeDistance_def minus_number_rounds [simplified] Let_def)

text \<open>
  With a move of more than 10 px while the only pending timeout is the one of this
  contact, no long press is left to fire. This needs a contact that starts with
  nothing pending: \<open>handleTouchStart\<close> clears no timeout.
\<close>

lemma move_disarms_long_press:
  assumes idle: "timeouts s = []"
    and pre: "list_all (\<lambda>e. during_contact (snd e)) pre"
    and post: "list_all (\<lambda>e. during_contact (snd e)) post"
    and before: "run hs s ((t0, TouchStart x0 y0) # pre) = (s1, out1)"
    and armed: "timeouts s1 \<noteq> []"
    and moved: "\<bar>minus_number x x0\<bar> > 10 \<or> \<bar>minus_number y y0\<bar> > 10"
    and whole: "run hs s ((t0, TouchStart x0 y0) # pre @ (t, TouchMove x y) # post
                  @ [(te, TouchEnd x1 y1)]) = (s', out)"
  shows "list_all (\<lambda>g. \<not> is_long_press g) out
         \<and> handleTouchMove x y s1 = (s1\<lparr>longPressTimer := None, timeouts := []\<rparr>, [])
         \<and> touchStartX s1 = x0 \<and> touchStartY s1 = y0"
proof -
  from pre obtain s1' out1' where
    r1: "run hs s ((t0, TouchStart x0 y0) # pre) = (s1', out1')"
    and k: "touchStartX s1' = x0" "touchStartY s1' = y0"
    by (rule contact_split)
  with before have k1: "touchStartX s1 = x0" "touchStartY s1 = y0" by simp_all
  from contact_split_idle [OF idle pre before]
  have ow: "owned s1" and bu: "length (timeouts s1) + length out1 \<le> 1" by simp_all
  from armed have "length (timeouts s1) \<ge> 1" by (cases "timeouts s1") simp_all
  with bu have "length out1 = 0" by linarith
  then have o1: "out1 = []" by simp
  obtain h where h: "longPressTimer s1 = Some h"
    using ow armed by (cases "timeouts s1") (auto simp: owned_def)
  have c: "cancelLongPress s1 = s1\<lparr>longPressTimer := None, timeouts := []\<rparr>"
    using owned_cancelLongPress [OF ow] h
    by (simp add: cancelLongPress_def clearTimeout_def)
  have mv: "handleTouchMove x y s1 = (s1\<lparr>longPressTimer := None, timeouts := []\<rparr>, [])"
    using moved k1 c by (simp add: handleTouchMove_def TOUCH_MOVE_THRESHOLD_def Let_def)
  obtain s3 out3 where p: "run hs (s1\<lparr>longPressTimer := None, timeouts := []\<rparr>) post = (s3, out3)"
    by (cases "run hs (s1\<lparr>longPressTimer := None, timeouts := []\<rparr>) post")
  from run_during_contact_budget [OF post p] have o3: "out3 = []" by simp
  obtain s4 out4 where e: "handleTouchEnd hs te x1 y1 s3 = (s4, out4)"
    by (cases "handleTouchEnd hs te x1 y1 s3")
  from touch_end_out [OF e] have o4: "list_all (\<lambda>g. \<not> is_long_press g) out4" by simp
  have "run hs s (((t0, TouchStart x0 y0) # pre) @ ((t, TouchMove x y) # post)
          @ [(te, TouchEnd x1 y1)]) = (s4, out1 @ out3 @ out4)"
    unfolding run_append using before mv p e by (simp add: run_append)
  with whole have "out = out1 @ out3 @ out4" by simp
  with o1 o3 o4 mv k1 show ?thesis by simp
qed

subsection \<open>Claims about gestures\<close>

text \<open>
  Claim C1 says that a contact sequence fires at most one of long-press, double-tap and
  swipe, and that after the long-press timer has fired the contact-end fires neither
  swipe nor double-tap. The listeners keep no record of a long press that has fired:
  a finger held for 500 ms, then dragged 80 px and lifted, gets the long press and the
  swipe.
\<close>

theorem long_press_then_swipe_counterexample:
  "snd (run \<lparr>onLongPress = True, onDoubleTap = True, onSwipe = True\<rparr> setupTouchGestures
          [(0, TouchStart 0 0), (500, Timeout 1), (600, TouchMove 80 0), (700, TouchEnd 80 0)])
   = [LongPress 0 0, Swipe Right]"
  by (simp add: gesture_defs)

text \<open>
  Claim C1 as the listeners have it: in a contact sequence that begins with no timeout
  pending, the long press is notified at most once, and at most one notification is a
  swipe or a double tap.
\<close>

theorem contact_sequence_outcomes:
  assumes idle: "timeouts s = []"
    and mids: "list_all (\<lambda>e. during_contact (snd e)) mids"
    and whole: "run hs s ((t0, TouchStart x0 y0) # mids @ [(te, TouchEnd x1 y1)]) = (s', out)"
  shows "length (filter is_long_press out) \<le> 1
         \<and> length (filter (\<lambda>g. \<not> is_long_press g) out) \<le> 1"
proof -
  from mids obtain s1 out1 s2 out2 where
    e: "handleTouchEnd hs te x1 y1 s1 = (s2, out2)"
    and r1: "run hs s ((t0, TouchStart x0 y0) # mids) = (s1, out1)"
    and r: "run hs s ((t0, TouchStart x0 y0) # mids @ [(te, TouchEnd x1 y1)]) = (s2, out1 @ out2)"
    and lp: "list_all is_long_press out1"
    by (rule contact_split)
  from contact_split_idle [OF idle mids r1] have b: "length out1 \<le> 1" by simp
  from touch_end_out [OF e] have e1: "length out2 \<le> 1"
    and e2: "list_all (\<lambda>g. \<not> is_long_press g) out2" by simp_all
  from lp have f1: "filter is_long_press out1 = out1" "filter (\<lambda>g. \<not> is_long_press g) out1 = []"
    by (simp_all add: list_all_iff)
  from e2 have f2: "filter is_long_press out2 = []" "filter (\<lambda>g. \<not> is_long_press g) out2 = out2"
    by (simp_all add: list_all_iff)
  from r whole have "out = out1 @ out2" by simp
  with f1 f2 b e1 show ?thesis by simp
qed

theorem contact_sequence_outcomes_witness:
  "timeouts setupTouchGestures = []
   \<and> list_all (\<lambda>e. during_contact (snd e)) [(500, Timeout 1), (600, TouchMove 80 0)]
   \<and> length (filter is_long_press
        (snd (run \<lparr>onLongPress = True, onDoubleTap = True, onSwipe = True\<rparr> setupTouchGestures
           [(0, TouchStart 0 0), (500, Timeout 1), (600, TouchMove 80 0), (700, TouchEnd 80 0)]))) \<le> 1
   \<and> length (filter (\<lambda>g. \<not> is_long_press g)
        (snd (run \<lparr>onLongPress = True, onDoubleTap = True, onSwipe = True\<rparr> setupTouchGestures
           [(0, TouchStart 0 0), (500, Timeout 1), (600, TouchMove 80 0), (700, TouchEnd 80 0)]))) \<le> 1"
proof -
  let ?hs = "\<lparr>onLongPress = True, onDoubleTap = True, onSwipe = True\<rparr>"
  let ?mids = "[(500, Timeout 1), (600, TouchMove 80 0)]"
  have idle: "timeouts setupTouchGestures = []" by (simp add: setupTouchGestures_def)
  have mids: "list_all (\<lambda>e. during_contact (snd e)) ?mids" by simp
  have whole: "run ?hs setupTouchGestures ((0, TouchStart 0 0) # ?mids @ [(700, TouchEnd 80 0)])
     = (fst (run ?hs setupTouchGestures ((0, TouchStart 0 0) # ?mids @ [(700, TouchEnd 80 0)])),
        snd (run ?hs setupTouchGestures ((0, TouchStart 0 0) # ?mids @ [(700, TouchEnd 80 0)])))"
    by (rule surjective_pairing)
  from contact_sequence_outcomes [OF idle mids whole] idle mids
  show ?thesis by simp
qed

text \<open>
  Claim C7: a contact-end that fires no swipe, with a double-tap callback, fires the
  double tap and resets the last-tap timestamp to 0 when the clock reading minus the
  timestamp is below 300, and otherwise fires nothing and stores the clock reading.
  Hence the contact-end that follows a fired double tap fires no other one, however
  soon it comes: it compares its clock reading with the timestamp 0, and
  \<open>Date.now()\<close>, the milliseconds since 1 January 1970, reads 300 or more. The
  theorem is about two contact-ends, at \<open>now\<close> and \<open>now'\<close>, with any inputs but a
  contact-end in between.
\<close>

theorem double_tap_window:
  assumes dt: "onDoubleTap hs"
    and tap1: "\<not> (onSwipe hs \<and> (\<bar>minus_number x (touchStartX s)\<bar> > 50
                              \<or> \<bar>minus_number y (touchStartY s)\<bar> > 50))"
    and end1: "handleTouchEnd hs now x y s = (s1, out1)"
    and between: "list_all (\<lambda>e. \<not> is_touch_end (snd e)) evs"
    and next1: "run hs s1 evs = (s2, out2)"
    and tap2: "\<not> (onSwipe hs \<and> (\<bar>minus_number x' (touchStartX s2)\<bar> > 50
                              \<or> \<bar>minus_number y' (touchStartY s2)\<bar> > 50))"
    and end2: "handleTouchEnd hs now' x' y' s2 = (s3, out3)"
    and clock: "300 \<le> now'"
  shows "out1 = (if minus_number now (lastTapTime s) < 300 then [DoubleTap] else [])
         \<and> lastTapTime s1 = (if minus_number now (lastTapTime s) < 300 then 0 else now)
         \<and> out3 = (if minus_number now (lastTapTime s) < 300 then []
                    else if minus_number now' now < 300 then [DoubleTap] else [])
         \<and> lastTapTime s3 = (if minus_number now (lastTapTime s) < 300 then now'
                    else if minus_number now' now < 300 then 0 else now')"
proof -
  from dt tap1 end1 have 1:
    "out1 = (if minus_number now (lastTapTime s) < 300 then [DoubleTap] else [])"
    "lastTapTime s1 = (if minus_number now (lastTapTime s) < 300 then 0 else now)"
    by (auto simp: handleTouchEnd_def minSwipeDistance_def DOUBLE_TAP_DURATION_def Let_def
        split: if_splits)
  from run_not_end_keeps_lastTapTime [OF between next1]
  have 2: "lastTapTime s2 = lastTapTime s1" by simp
  from dt tap2 end2 have 3:
    "out3 = (if minus_number now' (lastTapTime s2) < 300 then [DoubleTap] else [])"
    "lastTapTime s3 = (if minus_number now' (lastTapTime s2) < 300 then 0 else now')"
    by (auto simp: handleTouchEnd_def minSwipeDistance_def DOUBLE_TAP_DURATION_def Let_def
        split: if_splits)
  from minus_number_zero_ge [OF clock] have 4: "\<not> minus_number now' 0 < 300" by simp
  from 1 2 3 4 show ?thesis by simp
qed

theorem double_tap_window_witness:
  "onDoubleTap \<lparr>onLongPress = False, onDoubleTap = True, onSwipe = True\<rparr>
   \<and> (300::number) \<le> 1700000000510
   \<and> snd (handleTouchEnd \<lparr>onLongPress = False, onDoubleTap = True, onSwipe = True\<rparr>
        1700000000250 5 0 (setupTouchGestures\<lparr>lastTapTime := 1700000000000\<rparr>)) = [DoubleTap]
   \<and> snd (handleTouchEnd \<lparr>onLongPress = False, onDoubleTap = True, onSwipe = True\<rparr>
        1700000000510 5 0
        (fst (run \<lparr>onLongPress = False, onDoubleTap = True, onSwipe = True\<rparr>
           (fst (handleTouchEnd \<lparr>onLongPress = False, onDoubleTap = True, onSwipe = True\<rparr>
              1700000000250 5 0 (setupTouchGestures\<lparr>lastTapTime := 1700000000000\<rparr>)))
           [(1700000000500, TouchStart 0 0)]))) = []"
proof -
  let ?hs = "\<lparr>onLongPress = False, onDoubleTap = True, onSwipe = True\<rparr>"
  let ?s = "setupTouchGestures\<lparr>lastTapTime := 1700000000000\<rparr>"
  let ?s1 = "fst (handleTouchEnd ?hs 1700000000250 5 0 ?s)"
  let ?s2 = "fst (run ?hs ?s1 [(1700000000500, TouchStart 0 0)])"
  have dt: "onDoubleTap ?hs" by simp
  have tap1: "\<not> (onSwipe ?hs \<and> (\<bar>minus_number 5 (touchStartX ?s)\<bar> > 50
                                \<or> \<bar>minus_number 0 (touchStartY ?s)\<bar> > 50))"
    by (simp add: gesture_defs)
  have end1: "handleTouchEnd ?hs 1700000000250 5 0 ?s
      = (?s1, snd (handleTouchEnd ?hs 1700000000250 5 0 ?s))"
    by (rule surjective_pairing)
  have between: "list_all (\<lambda>e. \<not> is_touch_end (snd e)) [(1700000000500, TouchStart 0 0)]"
    by simp
  have next1: "run ?hs ?s1 [(1700000000500, TouchStart 0 0)]
      = (?s2, snd (run ?hs ?s1 [(1700000000500, TouchStart 0 0)]))"
    by (rule surjective_pairing)
  have tap2: "\<not> (onSwipe ?hs \<and> (\<bar>minus_number 5 (touchStartX ?s2)\<bar> > 50
                                \<or> \<bar>minus_number 0 (touchStartY ?s2)\<bar> > 50))"
    by (simp add: gesture_defs)
  have end2: "handleTouchEnd ?hs 1700000000510 5 0 ?s2
      = (fst (handleTouchEnd ?hs 1700000000510 5 0 ?s2),
         snd (handleTouchEnd ?hs 1700000000510 5 0 ?s2))"
    by (rule surjective_pairing)
  have clock: "(300::number) \<le> 1700000000510" by simp
  have l: "minus_number 1700000000250 (lastTapTime ?s) < 300" by (simp add: gesture_defs)
  from double_tap_window [OF dt tap1 end1 between next1 tap2 end2 clock] dt clock l
  show ?thesis by simp
qed



text \<open>
  Claim C9 says that a contact-move more than 10 px from the contact-start, while the
  long-press timer is armed, disarms it, so that no long press fires in that sequence.
  \<open>handleTouchMove\<close> clears the timeout whose handle \<open>longPressTimer\<close> holds, as
  \<open>handleTouchEnd\<close> and the teardown do. \<open>handleTouchStart\<close> does not: it overwrites
  the handle of a timeout that is still pending (a contact that the system cancelled,
  for which no listener is bound, or a second finger going down). That timeout can no
  longer be cleared. Here a contact starts at 100 ms while the timeout of an earlier
  contact-start is pending; the move at 200 ms clears the second timeout and the first
  one fires at 500 ms, with the start coordinates of the contact that moved.
\<close>

theorem orphaned_timeout_fires_long_press:
  "run \<lparr>onLongPress = True, onDoubleTap = False, onSwipe = False\<rparr> setupTouchGestures
     [(0, TouchStart 0 0),
      (100, TouchStart 0 0), (200, TouchMove 20 0), (500, Timeout 1), (700, TouchEnd 20 0)]
   = (\<lparr>longPressTimer = None, touchStartX = 0, touchStartY = 0, lastTapTime = 0,
       timeouts = [], nextHandle = 3\<rparr>,
      [LongPress 0 0])
   \<and> fst (run \<lparr>onLongPress = True, onDoubleTap = False, onSwipe = False\<rparr> setupTouchGestures
          [(0, TouchStart 0 0), (100, TouchStart 0 0), (200, TouchMove 20 0)])
     = \<lparr>longPressTimer = None, touchStartX = 0, touchStartY = 0, lastTapTime = 0,
        timeouts = [(1, 500)], nextHandle = 3\<rparr>"
  by (simp add: gesture_defs)

text \<open>
  Claim C10: with equal horizontal and vertical displacement, both above 50 px, the
  swipe is vertical: down when the vertical displacement is positive, up otherwise. It
  is never left or right. Equal displacements are equal after rounding. "Above 50" is
  meant of the displacement that the listener computes; an exact displacement of 51 or
  more, as every whole number of pixels above 50 is, is above 50 after rounding too.
\<close>

theorem diagonal_swipe_is_vertical:
  assumes "onSwipe hs"
    and "list_all (\<lambda>e. during_contact (snd e)) mids"
    and tie: "\<bar>x1 - x0\<bar> = \<bar>y1 - y0\<bar>"
    and far: "50 < \<bar>minus_number y1 y0\<bar> \<or> 51 \<le> \<bar>y1 - y0\<bar>"
    and whole: "run hs s ((t0, TouchStart x0 y0) # mids @ [(te, TouchEnd x1 y1)]) = (s', out)"
  shows "filter (\<lambda>g. \<not> is_long_press g) out = [Swipe (if y1 - y0 > 0 then Down else Up)]
         \<and> Swipe Left \<notin> set out \<and> Swipe Right \<notin> set out"
proof -
  from far have far': "50 < \<bar>minus_number y1 y0\<bar>" using minus_number_far [of y1 y0] by blast
  from tie have "x1 - x0 = y1 - y0 \<or> x1 - x0 = - (y1 - y0)" by linarith
  then have eq: "\<bar>minus_number x1 x0\<bar> = \<bar>minus_number y1 y0\<bar>"
    using round_double_minus [of "y1 - y0"] by (auto simp: minus_number_def)
  from far' have "round_double (y1 - y0) \<noteq> 0" by (auto simp: minus_number_def)
  then have sg: "0 < minus_number y1 y0 \<longleftrightarrow> 0 < y1 - y0"
    unfolding minus_number_def by (rule round_double_pos_iff)
  from far' have "\<bar>minus_number x1 x0\<bar> > 50 \<or> \<bar>minus_number y1 y0\<bar> > 50" by simp
  with assms(1,2) have
    "filter (\<lambda>g. \<not> is_long_press g) out =
           [Swipe (if \<bar>minus_number x1 x0\<bar> > \<bar>minus_number y1 y0\<bar>
                   then (if minus_number x1 x0 > 0 then Right else Left)
                   else (if minus_number y1 y0 > 0 then Down else Up))]
         \<and> lastTapTime s' = lastTapTime s"
    using whole by (rule swipe_sequence)
  with eq sg have f:
    "filter (\<lambda>g. \<not> is_long_press g) out = [Swipe (if y1 - y0 > 0 then Down else Up)]"
    by simp
  have "Swipe d \<in> set out \<Longrightarrow> Swipe d \<in> set (filter (\<lambda>g. \<not> is_long_press g) out)" for d
    by simp
  with f show ?thesis by (auto split: if_splits)
qed

theorem diagonal_swipe_is_vertical_witness:
  "\<bar>60 - 0\<bar> = \<bar>- 60 - (0::number)\<bar> \<and> (51::number) \<le> \<bar>- 60 - 0\<bar>
   \<and> filter (\<lambda>g. \<not> is_long_press g)
        (snd (run \<lparr>onLongPress = False, onDoubleTap = True, onSwipe = True\<rparr> setupTouchGestures
           [(1000, TouchStart 0 0), (1200, TouchEnd 60 (- 60))]))
      = [Swipe Up]"
proof -
  let ?hs = "\<lparr>onLongPress = False, onDoubleTap = True, onSwipe = True\<rparr>"
  have sw: "onSwipe ?hs" by simp
  have mids: "list_all (\<lambda>e. during_contact (snd e)) []" by simp
  have tie: "\<bar>60 - 0\<bar> = \<bar>- 60 - (0::number)\<bar>" by simp
  have far: "50 < \<bar>minus_number (- 60) 0\<bar> \<or> (51::number) \<le> \<bar>- 60 - 0\<bar>" by simp
  have whole: "run ?hs setupTouchGestures ((1000, TouchStart 0 0) # [] @ [(1200, TouchEnd 60 (- 60))])
     = (fst (run ?hs setupTouchGestures ((1000, TouchStart 0 0) # [] @ [(1200, TouchEnd 60 (- 60))])),
        snd (run ?hs setupTouchGestures ((1000, TouchStart 0 0) # [] @ [(1200, TouchEnd 60 (- 60))])))"
    by (rule surjective_pairing)
  from diagonal_swipe_is_vertical [OF sw mids tie far whole] tie
  show ?thesis by simp
qed

section \<open>Properties of the bridge\<close>

text \<open>
  \<open>handleNativeMessage\<close> reads \<open>message.type\<close> behind its test of \<open>message\<close>, so the
  read never raises: the method returns for every payload.
\<close>

lemma handleNativeMessage_returns: "\<exists>effects. handleNativeMessage raises b message = Inr effects"
  by (cases message) (auto simp: handleNativeMessage_def split: option.splits)

lemma calls_forEach_handler: "calls (forEach_handler raises message hs) = hs"
  by (induction hs) simp_all

lemma transports_forEach_handler: "filter is_transport (forEach_handler raises message hs) = []"
  by (induction hs) simp_all

text \<open>
The handler list stays free of duplicates, as a \<open>Set\<close> is.
\<close>

lemma onMessage_distinct:
  "distinct (messageHandlers b) \<Longrightarrow> distinct (messageHandlers (fst (onMessage h b)))"
  by (simp add: onMessage_def)

lemma unsubscribe_distinct:
  "distinct (messageHandlers b') \<Longrightarrow> distinct (messageHandlers (snd (onMessage h b) b'))"
  by (simp add: onMessage_def distinct_removeAll)

text \<open>
  Claim C2 says that an inbound payload whose \<open>type\<close> is not one of \<open>TOKEN\<close>,
  \<open>DEVICE_INFO\<close>, \<open>LOGOUT_COMPLETE\<close>, \<open>AUTH_SAVED\<close> reaches no handler.
  \<open>handleNativeMessage\<close> tests \<open>!message || !message.type\<close> and nothing else: a
  payload of type \<open>FOO\<close> is passed to every handler.
\<close>

theorem unknown_type_dispatched_counterexample:
  "handleNativeMessage (\<lambda>handler message. False)
     \<lparr>isMobile = True, messageHandlers = [7], initialized = True\<rparr>
     (Obj [(''type'', Str ''FOO'')])
   = Inr [LogReceived (Str ''FOO''), HandlerCalled 7 (Obj [(''type'', Str ''FOO'')])]"
  by (simp add: handleNativeMessage_def)

text \<open>
  Claim C2 as the method has it: a falsy payload, or one whose \<open>type\<close> is missing or
  falsy (the empty string among others), has no effect at all and calls no handler; a
  payload with any truthy \<open>type\<close> is passed to the registered handlers.
\<close>

theorem falsy_type_discarded:
  "(\<not> truthy message \<longrightarrow> handleNativeMessage raises b message = Inr [])
   \<and> (truthy message \<longrightarrow> get_property message ''type'' = Inr t \<longrightarrow> \<not> truthy t \<longrightarrow>
        handleNativeMessage raises b message = Inr [])
   \<and> (truthy message \<longrightarrow> get_property message ''type'' = Inr t \<longrightarrow> truthy t \<longrightarrow>
        (\<exists>effects. handleNativeMessage raises b message = Inr effects
           \<and> calls effects = messageHandlers b))"
  by (simp add: handleNativeMessage_def calls_forEach_handler)

theorem falsy_type_discarded_witness:
  "handleNativeMessage (\<lambda>handler message. False)
     \<lparr>isMobile = True, messageHandlers = [7], initialized = True\<rparr> Null = Inr []
   \<and> handleNativeMessage (\<lambda>handler message. False)
     \<lparr>isMobile = True, messageHandlers = [7], initialized = True\<rparr> (Obj []) = Inr []
   \<and> handleNativeMessage (\<lambda>handler message. False)
     \<lparr>isMobile = True, messageHandlers = [7], initialized = True\<rparr>
     (Obj [(''type'', Str '''')]) = Inr []
   \<and> (\<exists>effects. handleNativeMessage (\<lambda>handler message. False)
     \<lparr>isMobile = True, messageHandlers = [7], initialized = True\<rparr>
     (Obj [(''type'', Str ''TOKEN'')]) = Inr effects \<and> calls effects = [7])"
proof -
  let ?b = "\<lparr>isMobile = True, messageHandlers = [7], initialized = True\<rparr>"
  let ?r = "\<lambda>(handler::MessageHandler) (message::js_value). False"
  have 1: "handleNativeMessage ?r ?b Null = Inr []"
    using falsy_type_discarded [where message = Null and raises = ?r and b = ?b] by simp
  have 2: "handleNativeMessage ?r ?b (Obj []) = Inr []"
    using falsy_type_discarded [where message = "Obj []" and t = Undefined and raises = ?r and b = ?b]
    by simp
  have 3: "handleNativeMessage ?r ?b (Obj [(''type'', Str '''')]) = Inr []"
    using falsy_type_discarded [where message = "Obj [(''type'', Str '''')]" and t = "Str ''''"
        and raises = ?r and b = ?b]
    by simp
  have 4: "\<exists>effects. handleNativeMessage ?r ?b (Obj [(''type'', Str ''TOKEN'')]) = Inr effects
             \<and> calls effects = [7]"
    using falsy_type_discarded [where message = "Obj [(''type'', Str ''TOKEN'')]"
        and t = "Str ''TOKEN''" and raises = ?r and b = ?b]
    by simp
  from 1 2 3 4 show ?thesis by blast
qed

text \<open>
  Claim C3 says that without a windowing environment \<open>isMobileApp\<close> and
  \<open>getPlatform\<close> return false and \<open>web\<close> without raising. With neither \<open>window\<close>
  nor \<open>navigator\<close> defined, \<open>isMobileApp\<close> passes its guarded first test and then
  reads \<open>window.location\<close>, and \<open>getPlatform\<close> reads \<open>navigator.userAgent\<close>: both
  raise \<open>ReferenceError\<close>. The constructor does guard its call with
  \<open>typeof window !== 'undefined'\<close> and leaves \<open>isMobile\<close> false.
\<close>

theorem headless_detection_raises:
  "isMobileApp \<lparr>window = None, navigator_userAgent = None\<rparr> = Inl ReferenceError
   \<and> getPlatform \<lparr>window = None, navigator_userAgent = None\<rparr> = Inl ReferenceError
   \<and> new_MobileBridge \<lparr>window = None, navigator_userAgent = None\<rparr>
       = Inr \<lparr>isMobile = False, messageHandlers = [], initialized = False\<rparr>"
  by (simp add: isMobileApp_def getPlatform_def new_MobileBridge_def)

text \<open>
  Claim C4: in the mobile shell, \<open>postMessage\<close> calls one transport, chosen from the
  environment of that call: \<open>window.uni.postMessage\<close> with the message object when it
  is available, whatever else is; otherwise the parent frame's \<open>postMessage\<close> with the
  message object and target \<open>*\<close> when there is a parent frame; otherwise
  \<open>ReactNativeWebView.postMessage\<close> with the serialised message when it is there;
  otherwise none.
\<close>

theorem transport_priority:
  assumes "isMobile b" and "window env = Some w"
  shows "\<exists>effects. postMessage stringify b env message = Inr effects
           \<and> filter is_transport effects =
               (if uni_available w then [UniPostMessage message]
                else if has_parent_frame w then [ParentPostMessage message ''*'']
                else if ReactNativeWebView w then [WebViewPostMessage (stringify message)]
                else [])"
  using assms by (simp add: postMessage_def)

theorem transport_priority_witness:
  "isMobile \<lparr>isMobile = True, messageHandlers = [], initialized = True\<rparr>
   \<and> (\<exists>effects. postMessage (\<lambda>m. ''{}'') \<lparr>isMobile = True, messageHandlers = [], initialized = True\<rparr>
         \<lparr>window = Some \<lparr>MOBILE_APP = Bool True, mobile_param = None, uni = Some True,
              has_parent_frame = False, ReactNativeWebView = True\<rparr>,
           navigator_userAgent = Some ''x''\<rparr> \<lparr>type = LOGOUT, data = None\<rparr> = Inr effects
       \<and> filter is_transport effects = [UniPostMessage \<lparr>type = LOGOUT, data = None\<rparr>])
   \<and> (\<exists>effects. postMessage (\<lambda>m. ''{}'') \<lparr>isMobile = True, messageHandlers = [], initialized = True\<rparr>
         \<lparr>window = Some \<lparr>MOBILE_APP = Bool True, mobile_param = None, uni = None,
              has_parent_frame = True, ReactNativeWebView = True\<rparr>,
           navigator_userAgent = Some ''x''\<rparr> \<lparr>type = LOGOUT, data = None\<rparr> = Inr effects
       \<and> filter is_transport effects = [ParentPostMessage \<lparr>type = LOGOUT, data = None\<rparr> ''*''])
   \<and> (\<exists>effects. postMessage (\<lambda>m. ''{}'') \<lparr>isMobile = True, messageHandlers = [], initialized = True\<rparr>
         \<lparr>window = Some \<lparr>MOBILE_APP = Bool True, mobile_param = None, uni = None,
              has_parent_frame = False, ReactNativeWebView = True\<rparr>,
           navigator_userAgent = Some ''x''\<rparr> \<lparr>type = LOGOUT, data = None\<rparr> = Inr effects
       \<and> filter is_transport effects = [WebViewPostMessage ''{}''])"
proof -
  let ?b = "\<lparr>isMobile = True, messageHandlers = [], initialized = True\<rparr>"
  let ?m = "\<lparr>type = LOGOUT, data = None\<rparr>"
  let ?w = "\<lambda>u p. \<lparr>MOBILE_APP = Bool True, mobile_param = None, uni = u,
              has_parent_frame = p, ReactNativeWebView = True\<rparr>"
  have mob: "isMobile ?b" by simp
  have win: "window \<lparr>window = Some (?w u p), navigator_userAgent = Some ''x''\<rparr> = Some (?w u p)"
    for u p by simp
  note t = transport_priority [OF mob win, of "\<lambda>m. ''{}''" _ _ ?m]
  from t [of "Some True" False] t [of None True] t [of None False] mob
  show ?thesis by (simp add: uni_available_def)
qed

text \<open>
  Claim C5: outside the mobile shell, \<open>postMessage\<close> returns without raising and
  calls no transport, for every message and every environment.
\<close>

theorem not_mobile_skips:
  assumes "\<not> isMobile b"
  shows "\<exists>effects. postMessage stringify b env message = Inr effects
           \<and> filter is_transport effects = []"
  using assms by (simp add: postMessage_def)

theorem not_mobile_skips_witness:
  "\<not> isMobile \<lparr>isMobile = False, messageHandlers = [], initialized = False\<rparr>
   \<and> (\<exists>effects. postMessage (\<lambda>m. ''{}'') \<lparr>isMobile = False, messageHandlers = [], initialized = False\<rparr>
         \<lparr>window = Some \<lparr>MOBILE_APP = Undefined, mobile_param = None, uni = Some True,
              has_parent_frame = True, ReactNativeWebView = True\<rparr>,
           navigator_userAgent = Some ''x''\<rparr> \<lparr>type = SAVE_AUTH, data = Some (Obj [])\<rparr> = Inr effects
       \<and> filter is_transport effects = [])"
proof -
  have n: "\<not> isMobile \<lparr>isMobile = False, messageHandlers = [], initialized = False\<rparr>" by simp
  from not_mobile_skips [OF n] n show ?thesis by blast
qed



end

